theory Spec2Isabelle
  imports Main "HOL-Library.Word"
begin

unbundle bit_operations_syntax

section \<open>Global state of the instrumentation shim (afl-qemu-cpu-inl.h)\<close>

text \<open>
  The shim keeps its state in file-level variables. \<open>afl_area_ptr\<close> is a raw pointer into
  the shared-memory segment, or NULL: it is modelled as \<open>None\<close> (NULL) or \<open>Some area\<close>,
  where \<open>area i\<close> is the byte at offset \<open>i\<close> from the pointer. The C code never checks an
  offset against the size of the segment, so neither does the model: a write lands at the
  offset the code computes, and that this offset lies inside the map of \<open>MAP_SIZE\<close> bytes
  is a theorem, not part of the definition.

  \<open>abi_ulong\<close> is declared in \<open>exec/user/abitypes.h\<close>, which is not part of the sources at
  hand; it is an unsigned integer of the target's width (32 or 64 bits), so it is the word
  type \<open>'a word\<close> with the width \<open>'a\<close> left open (the record below is declared over
  the type \<open>'w\<close> of these fields and used at \<open>'w = 'a word\<close>). \<open>MAP_SIZE\<close> and \<open>FORKSRV_FD\<close> come from
  \<open>config.h\<close>, which is not at hand either: both are \<open>int\<close> constants of C and are taken
  as parameters of the functions that use them.
\<close>

type_synonym area = "nat \<Rightarrow> 8 word"

record 'w afl_state =
  afl_area_ptr    :: "area option"
  afl_entry_point :: 'w
  afl_start_code  :: 'w
  afl_end_code    :: 'w
  afl_fork_child  :: "8 word"
  afl_forksrv_pid :: "32 word"
  afl_inst_rms    :: "32 word"
  prev_loc        :: 'w
  tmp             :: "32 word"

text \<open>
  The initial values of the variables: \<open>afl_inst_rms = MAP_SIZE\<close> (an \<open>int\<close> converted to
  \<open>unsigned int\<close>), \<open>tmp = "1234"\<close> (the four bytes read as one little-endian word, the way
  the shim itself reads them when it prints \<open>tmp\<close> with \<open>%x\<close>), everything else zero.
\<close>

definition afl_init :: "int \<Rightarrow> ('a::len) word afl_state" where
  "afl_init MAP_SIZE =
     \<lparr> afl_area_ptr = None, afl_entry_point = 0, afl_start_code = 0, afl_end_code = 0,
       afl_fork_child = 0, afl_forksrv_pid = 0, afl_inst_rms = word_of_int MAP_SIZE,
       prev_loc = 0, tmp = 0x34333231 \<rparr>"

section \<open>afl_setup\<close>




section \<open>afl_maybe_log\<close>

text \<open>
  The tuple logging routine. \<open>cur_loc\<close> and \<open>prev_loc\<close> are \<open>abi_ulong\<close>; \<open>MAP_SIZE - 1\<close> is
  an \<open>int\<close> converted to \<open>abi_ulong\<close>; \<open>cur_loc >= afl_inst_rms\<close> compares two unsigned
  values; \<open>afl_area_ptr[...]++\<close> increments an \<open>unsigned char\<close>. \<open>prev_loc\<close> is a
  \<open>static __thread\<close> variable of the function: the model follows one thread, and no other
  function touches the field.
\<close>

definition afl_maybe_log :: "int \<Rightarrow> ('a::len) word \<Rightarrow> 'a word afl_state \<Rightarrow> 'a word afl_state" where
  "afl_maybe_log MAP_SIZE cur_loc st =
     (case afl_area_ptr st of
        None \<Rightarrow> st
      | Some a \<Rightarrow>
          let cur_loc = drop_bit 4 cur_loc XOR push_bit 8 cur_loc;
              cur_loc = cur_loc AND word_of_int (MAP_SIZE - 1)
          in if unat cur_loc \<ge> unat (afl_inst_rms st) then st
             else let i = unat (cur_loc XOR prev_loc st)
                  in st\<lparr>afl_area_ptr := Some (a(i := a i + 1)),
                         prev_loc := drop_bit 1 cur_loc\<rparr>)"

section \<open>System calls\<close>

text \<open>
  The fork server talks to the outside through system calls. A run of the code is modelled
  against the list of what the calls return, in the order the code makes them: each
  \<open>write\<close>, \<open>read\<close>, \<open>fork\<close> and \<open>waitpid\<close> takes the next element. \<open>ret\<close> is the return
  value of the call; \<open>out\<close> is what the call stores through its pointer argument (the four
  bytes \<open>read\<close> puts in \<open>tmp\<close>, the \<open>status\<close> of \<open>waitpid\<close>). When the list is used up the
  call does not return: the run ends as \<open>Blocked\<close>, the process waiting in that call.
  \<open>fork\<close> returning 0 makes the run follow the child. \<open>getpid\<close> cannot fail or block;
  its value is a parameter.

  Beside the result, a run yields every call it makes, in order. \<open>Sys_write fd buf\<close> says
  which four bytes were passed: \<open>tmp\<close>, \<open>&child_pid\<close> or \<open>&status\<close>. \<open>printf\<close> and \<open>puts\<close>
  carry the format string without its final newline. \<open>Tb_gen_code pc cs_base flags\<close> is
  the translation engine's compile entry point; its only call in the shim is commented
  out, so no function below emits it.
\<close>

record sysret =
  ret :: int
  out :: "32 word"

datatype buf = Buf_tmp "32 word" | Buf_child_pid int | Buf_status "32 word"

datatype syscall =
    Sys_printf string
  | Sys_puts string
  | Sys_write int buf
  | Sys_read int nat
  | Sys_getpid
  | Sys_fork
  | Sys_close int
  | Sys_waitpid int
  | Sys_sleep nat
  | Tb_gen_code nat nat nat

datatype 's outcome = Returned 's | Exited int | Blocked

type_synonym 's run = "'s outcome \<times> syscall list"

text \<open>\<open>after cs r\<close>: the calls \<open>cs\<close> are made, then the run \<open>r\<close> follows.\<close>

definition after :: "syscall list \<Rightarrow> 's run \<Rightarrow> 's run" where
  "after cs r = (fst r, cs @ snd r)"

section \<open>afl_forkserver\<close>

text \<open>
  The body of \<open>while (1)\<close>, from the \<open>read\<close> of the go signal to \<open>sleep(5)\<close>. The pipe
  set-up, \<open>close(TSL_FD)\<close> and the call of \<open>afl_wait_tsl\<close> are commented out in the source
  and therefore absent here. The argument \<open>cpu\<close> is used by none of the live code.
\<close>

fun forkserver_loop :: "int \<Rightarrow> sysret list \<Rightarrow> ('a::len) word afl_state \<Rightarrow> 'a word afl_state run" where
  "forkserver_loop FORKSRV_FD [] st = (Blocked, [Sys_read FORKSRV_FD 4])"
| "forkserver_loop FORKSRV_FD (r # rs) st =
     (let failed_len = ret r;
          st = st\<lparr>tmp := out r\<rparr>
      in if failed_len \<noteq> 4
         then (Exited 2, [Sys_read FORKSRV_FD 4, Sys_puts ''[!] Parent dead!''])
         else after [Sys_read FORKSRV_FD 4, Sys_fork]
           (case rs of
              [] \<Rightarrow> (Blocked, [])
            | f # rs \<Rightarrow>
                let child_pid = ret f
                in if child_pid < 0 then (Exited 4, [])
                   else if child_pid = 0
                   then (Returned (st\<lparr>afl_fork_child := 1\<rparr>),
                         [Sys_close FORKSRV_FD, Sys_close (FORKSRV_FD + 1)])
                   else after [Sys_printf ''[Qemu] Parent will wait until child exit'',
                               Sys_write (FORKSRV_FD + 1) (Buf_child_pid child_pid)]
                     (case rs of
                        [] \<Rightarrow> (Blocked, [])
                      | w # rs \<Rightarrow>
                          if ret w \<noteq> 4 then (Exited 5, [])
                          else after [Sys_waitpid child_pid]
                            (case rs of
                               [] \<Rightarrow> (Blocked, [])
                             | c # rs \<Rightarrow>
                                 let status = out c
                                 in if ret c < 0 then (Exited 6, [])
                                    else after [Sys_write (FORKSRV_FD + 1) (Buf_status status)]
                                      (case rs of
                                         [] \<Rightarrow> (Blocked, [])
                                       | w # rs \<Rightarrow>
                                           if ret w \<noteq> 4 then (Exited 7, [])
                                           else after [Sys_sleep 5]
                                                  (forkserver_loop FORKSRV_FD rs st))))))"

text \<open>
  The whole function: the NULL check, the handshake, \<open>getpid\<close>, then the loop.
\<close>

definition afl_forkserver ::
  "int \<Rightarrow> int \<Rightarrow> sysret list \<Rightarrow> ('a::len) word afl_state \<Rightarrow> 'a word afl_state run" where
  "afl_forkserver FORKSRV_FD pid rs st =
     (case afl_area_ptr st of
        None \<Rightarrow> (Returned st, [])
      | Some a \<Rightarrow>
          after [Sys_printf ''[Qemu] write %x to AFL'',
                 Sys_write (FORKSRV_FD + 1) (Buf_tmp (tmp st))]
            (case rs of
               [] \<Rightarrow> (Blocked, [])
             | w # rs \<Rightarrow>
                 if ret w \<noteq> 4 then (Returned st, [])
                 else let st = st\<lparr>afl_forksrv_pid := word_of_int pid\<rparr>
                      in after [Sys_getpid, Sys_printf ''[+] afl_forksrv_pid: %d'']
                           (forkserver_loop FORKSRV_FD rs st)))"

section \<open>afl_wait_tsl\<close>

text \<open>
  The message of the relay channel, and the receiver. \<open>sz\<close> is \<open>sizeof(struct afl_tsl)\<close>,
  which depends on the target's word size. Each element of the list is what one \<open>read\<close>
  returns and the message it stores in \<open>t\<close>. The look-up and the call of \<open>tb_gen_code\<close> are
  commented out in the source, so the body of the loop is the \<open>read\<close> alone and \<open>t\<close> is
  never used.
\<close>

record 'w afl_tsl =
  pc      :: 'w
  cs_base :: 'w
  flags   :: "64 word"

fun afl_wait_tsl :: "nat \<Rightarrow> int \<Rightarrow> (int \<times> ('a::len) word afl_tsl) list \<Rightarrow> unit run" where
  "afl_wait_tsl sz fd [] = (Blocked, [Sys_read fd sz])"
| "afl_wait_tsl sz fd ((n, t) # rs) =
     (if n \<noteq> int sz then (Returned (), [Sys_read fd sz, Sys_close fd])
      else after [Sys_read fd sz] (afl_wait_tsl sz fd rs))"

section \<open>Observations on runs\<close>

text \<open>
  Two measurements used to state properties; neither is part of the shim.

  \<open>pid_then_wait cs\<close> holds when, in the list of calls \<open>cs\<close>, every write of a child pid
  that is followed by another call is followed by \<open>waitpid\<close> on that child.

  \<open>recordings_at MAP_SIZE i addrs st\<close> runs the logger on the addresses \<open>addrs\<close> in turn,
  starting in \<open>st\<close>, and counts the calls that change the byte at offset \<open>i\<close>.
\<close>

fun pid_then_wait :: "syscall list \<Rightarrow> bool" where
  "pid_then_wait [] = True"
| "pid_then_wait (e # es) =
     ((case e of
         Sys_write fd (Buf_child_pid p) \<Rightarrow> (case es of [] \<Rightarrow> True | e' # _ \<Rightarrow> e' = Sys_waitpid p)
       | _ \<Rightarrow> True) \<and> pid_then_wait es)"

fun recordings_at :: "int \<Rightarrow> nat \<Rightarrow> ('a::len) word list \<Rightarrow> 'a word afl_state \<Rightarrow> nat" where
  "recordings_at MAP_SIZE i [] st = 0"
| "recordings_at MAP_SIZE i (x # xs) st =
     (let st' = afl_maybe_log MAP_SIZE x st
      in (if map_option (\<lambda>a. a i) (afl_area_ptr st') \<noteq> map_option (\<lambda>a. a i) (afl_area_ptr st)
          then 1 else 0) + recordings_at MAP_SIZE i xs st')"

section \<open>Auxiliary facts\<close>

subsection \<open>The logger\<close>


lemma log_attached:
  fixes addr :: "'a::len word"
  assumes "afl_area_ptr st = Some a"
  shows "afl_maybe_log M addr st =
    (let s = (drop_bit 4 addr XOR push_bit 8 addr) AND word_of_int (M - 1) in
     if unat s < unat (afl_inst_rms st)
     then st\<lparr>afl_area_ptr := Some (a(unat (s XOR prev_loc st) := a (unat (s XOR prev_loc st)) + 1)),
             prev_loc := drop_bit 1 s\<rparr>
     else st)"
  using assms by (simp add: afl_maybe_log_def Let_def not_le)

lemma log_recorded:
  fixes addr :: "'a::len word"
  assumes "afl_area_ptr st = Some a"
    and "s = (drop_bit 4 addr XOR push_bit 8 addr) AND word_of_int (M - 1)"
    and "unat s < unat (afl_inst_rms st)"
  shows "afl_maybe_log M addr st =
     st\<lparr>afl_area_ptr := Some (a(unat (s XOR prev_loc st) := a (unat (s XOR prev_loc st)) + 1)),
             prev_loc := drop_bit 1 s\<rparr>"
  using assms by (simp add: log_attached Let_def)

lemma log_skipped:
  fixes addr :: "'a::len word"
  assumes "afl_area_ptr st = Some a"
    and "\<not> unat ((drop_bit 4 addr XOR push_bit 8 addr) AND word_of_int (M - 1)) < unat (afl_inst_rms st)"
  shows "afl_maybe_log M addr st = st"
  using assms by (simp add: log_attached Let_def)

lemma prev_loc_upd_same: "prev_loc st = p \<Longrightarrow> st\<lparr>prev_loc := p\<rparr> = st"
  by auto

lemma area_ptr_upd_same: "afl_area_ptr st = p \<Longrightarrow> st\<lparr>afl_area_ptr := p\<rparr> = st"
  by auto

lemma byte_add_256: "(x :: 8 word) + of_nat 256 = x"
  by simp

lemma byte_counter_mod:
  "unat ((x :: 8 word) + of_nat c) = (unat x + c) mod 256"
  by (simp add: unat_word_ariths unat_of_nat mod_add_right_eq)

lemma log_same_edge_funpow:
  fixes addr :: "'a::len word" and st :: "'a word afl_state"
  assumes "afl_area_ptr st = Some a"
    and "loc = (drop_bit 4 addr XOR push_bit 8 addr) AND word_of_int (M - 1)"
    and "unat loc < unat (afl_inst_rms st)"
    and "prev_loc st = drop_bit 1 loc"
    and "i = unat (loc XOR drop_bit 1 loc)"
  shows "(afl_maybe_log M addr ^^ n) st = st\<lparr>afl_area_ptr := Some (a(i := a i + of_nat n))\<rparr>"
proof (induction n)
  case 0
  show ?case using assms(1) by simp
next
  case (Suc n)
  let ?st = "st\<lparr>afl_area_ptr := Some (a(i := a i + of_nat n))\<rparr>"
  have "afl_maybe_log M addr ?st =
     ?st\<lparr>afl_area_ptr := Some ((a(i := a i + of_nat n))(unat (loc XOR prev_loc ?st) := (a(i := a i + of_nat n)) (unat (loc XOR prev_loc ?st)) + 1)),
             prev_loc := drop_bit 1 loc\<rparr>"
    using assms(2,3) by (intro log_recorded) simp_all
  also have "\<dots> = (st\<lparr>prev_loc := drop_bit 1 loc\<rparr>)\<lparr>afl_area_ptr := Some (a(i := a i + of_nat (Suc n)))\<rparr>"
    using assms(4,5) by (simp add: ac_simps)
  also have "\<dots> = st\<lparr>afl_area_ptr := Some (a(i := a i + of_nat (Suc n)))\<rparr>"
    using assms(4) by (simp only: prev_loc_upd_same)
  finally have "afl_maybe_log M addr ?st = st\<lparr>afl_area_ptr := Some (a(i := a i + of_nat (Suc n)))\<rparr>" .
  then show ?case using Suc by (simp only: funpow.simps o_apply)
qed

lemma log_counter_step:
  fixes addr :: "'a::len word"
  assumes "afl_area_ptr st = Some a"
  shows "\<exists>a'. afl_area_ptr (afl_maybe_log M addr st) = Some a' \<and>
           a' i = a i + (if a' i \<noteq> a i then 1 else 0)"
proof (cases "unat ((drop_bit 4 addr XOR push_bit 8 addr) AND word_of_int (M - 1)) < unat (afl_inst_rms st)")
  case True
  from log_recorded [OF assms refl True] show ?thesis by simp
next
  case False
  from log_skipped [OF assms False] assms show ?thesis by simp
qed

lemma run_counter:
  fixes st :: "'a::len word afl_state"
  assumes "afl_area_ptr st = Some a"
  shows "\<exists>a'. afl_area_ptr (fold (afl_maybe_log M) xs st) = Some a' \<and>
           a' i = a i + of_nat (recordings_at M i xs st)"
  using assms
proof (induction xs arbitrary: st a)
  case Nil
  then show ?case by simp
next
  case (Cons x xs)
  from log_counter_step [OF Cons.prems, of M x i] obtain a1 where
    a1: "afl_area_ptr (afl_maybe_log M x st) = Some a1"
        "a1 i = a i + (if a1 i \<noteq> a i then 1 else 0)"
    by blast
  from Cons.IH [OF a1(1)] obtain a' where
    a': "afl_area_ptr (fold (afl_maybe_log M) xs (afl_maybe_log M x st)) = Some a'"
        "a' i = a1 i + of_nat (recordings_at M i xs (afl_maybe_log M x st))"
    by blast
  have "a' i = a i + of_nat (recordings_at M i (x # xs) st)"
  proof (cases "a1 i = a i")
    case True
    then show ?thesis using a1(1) a'(2) Cons.prems by (simp add: Let_def)
  next
    case False
    with a1(2) have "a1 i = a i + 1" by simp
    then show ?thesis using False a1(1) a'(2) Cons.prems by (simp add: Let_def)
  qed
  with a'(1) show ?case by simp
qed

lemma recordings_same_edge:
  fixes addr :: "'a::len word" and st :: "'a word afl_state"
  assumes "afl_area_ptr st = Some a"
    and "loc = (drop_bit 4 addr XOR push_bit 8 addr) AND word_of_int (M - 1)"
    and "unat loc < unat (afl_inst_rms st)"
    and "prev_loc st = drop_bit 1 loc"
  shows "recordings_at M (unat (loc XOR drop_bit 1 loc)) (replicate n addr) st = n"
  using assms(1,3,4)
proof (induction n arbitrary: st a)
  case 0
  show ?case by simp
next
  case (Suc n)
  let ?i = "unat (loc XOR drop_bit 1 loc)"
  let ?st = "afl_maybe_log M addr st"
  have st: "?st = st\<lparr>afl_area_ptr := Some (a(?i := a ?i + 1)), prev_loc := drop_bit 1 loc\<rparr>"
    using log_recorded [OF Suc.prems(1) assms(2) Suc.prems(2)] Suc.prems(3) by simp
  have "afl_area_ptr ?st = Some (a(?i := a ?i + 1))"
    and "unat loc < unat (afl_inst_rms ?st)" and "prev_loc ?st = drop_bit 1 loc"
    unfolding st using Suc.prems(2) by simp_all
  then have "recordings_at M ?i (replicate n addr) ?st = n"
    by (rule Suc.IH)
  moreover have "map_option (\<lambda>a. a ?i) (afl_area_ptr ?st) \<noteq> map_option (\<lambda>a. a ?i) (afl_area_ptr st)"
    by (simp add: st Suc.prems)
  ultimately show ?case by (simp add: Let_def)
qed

subsection \<open>Masks and bounds\<close>





lemma word_of_int_pow2_minus1: "(word_of_int (2 ^ k - 1) :: 'a::len word) = mask k"
  by (simp add: mask_eq_exp_minus_1)

lemma and_mask_fits: "take_bit k ((x :: 'a::len word) AND mask k) = x AND mask k"
  by (simp add: take_bit_eq_mask)

lemma drop_bit_fits:
  assumes "take_bit k (w :: 'a::len word) = w"
  shows "take_bit k (drop_bit 1 w) = drop_bit 1 w"
proof -
  have "drop_bit 1 w = drop_bit 1 (take_bit k w)" using assms by simp
  also have "\<dots> = take_bit (k - 1) (drop_bit 1 w)" by (simp add: drop_bit_take_bit)
  finally have e: "drop_bit 1 w = take_bit (k - 1) (drop_bit 1 w)" .
  have "min k (k - 1) = k - 1" by simp
  then have "take_bit k (take_bit (k - 1) (drop_bit 1 w)) = take_bit (k - 1) (drop_bit 1 w)"
    by (simp only: take_bit_take_bit)
  with e show ?thesis by simp
qed

lemma xor_fits:
  assumes "take_bit k (a :: 'a::len word) = a" "take_bit k b = b"
  shows "take_bit k (a XOR b) = a XOR b"
  using assms by simp

lemma fits_unat:
  assumes "take_bit k (w :: 'a::len word) = w"
  shows "int (unat w) < 2 ^ k"
proof -
  have "unat w = unat (take_bit k w)" using assms by simp
  also have "\<dots> = take_bit k (unat w)" by (simp add: unsigned_take_bit_eq)
  also have "\<dots> < 2 ^ k" by simp
  finally have "unat w < 2 ^ k" .
  then have "int (unat w) < int (2 ^ k)" by (simp only: of_nat_less_iff)
  then show ?thesis by simp
qed

lemma log_prev_loc_cases:
  fixes addr :: "'a::len word"
  shows "prev_loc (afl_maybe_log M addr st) = prev_loc st \<or>
     prev_loc (afl_maybe_log M addr st) =
       drop_bit 1 ((drop_bit 4 addr XOR push_bit 8 addr) AND word_of_int (M - 1))"
  by (simp add: afl_maybe_log_def Let_def split: option.splits)

lemma run_prev_loc:
  fixes st0 :: "'a::len word afl_state"
  assumes "prev_loc st0 = 0"
  shows "prev_loc (fold (afl_maybe_log M) addrs st0) = 0 \<or>
    (\<exists>x. prev_loc (fold (afl_maybe_log M) addrs st0) =
       drop_bit 1 ((drop_bit 4 x XOR push_bit 8 x) AND word_of_int (M - 1)))"
proof (induction addrs rule: rev_induct)
  case Nil
  show ?case using assms by simp
next
  case (snoc y ys)
  let ?st = "fold (afl_maybe_log M) ys st0"
  have "fold (afl_maybe_log M) (ys @ [y]) st0 = afl_maybe_log M y ?st" by simp
  then show ?case using snoc log_prev_loc_cases [of M y ?st] by metis
qed

subsection \<open>The sampling rate\<close>







subsection \<open>Runs of the fork server\<close>

lemma after_simps [simp]:
  "fst (after cs r) = fst r" "snd (after cs r) = cs @ snd r"
  by (simp_all add: after_def)

lemma pid_then_wait_tl: "pid_then_wait (x # xs) \<Longrightarrow> pid_then_wait xs"
  by simp

lemma pid_then_wait_decomp:
  assumes "pid_then_wait tr" and "tr = pre @ Sys_write fd (Buf_child_pid p) # e # post"
  shows "e = Sys_waitpid p"
  using assms
proof (induction pre arbitrary: tr)
  case Nil
  then show ?case by simp
next
  case (Cons x pre)
  from Cons.prems have "pid_then_wait (pre @ Sys_write fd (Buf_child_pid p) # e # post)"
    using pid_then_wait_tl by simp
  then show ?case by (rule Cons.IH) simp
qed

lemma loop_pid_then_wait:
  "pid_then_wait (snd (forkserver_loop FD rs st))"
proof (induction FD rs st rule: forkserver_loop.induct)
  case (1 FD st)
  show ?case by simp
next
  case (2 FD r rs st)
  then show ?case
    by (auto simp: Let_def split: list.splits)
qed

lemma loop_reads:
  "Sys_read fd n \<in> set (snd (forkserver_loop FD rs st)) \<Longrightarrow> fd = FD \<and> n = 4"
proof (induction FD rs st rule: forkserver_loop.induct)
  case (1 FD st)
  then show ?case by simp
next
  case (2 FD r rs st)
  then show ?case
    by (auto simp: Let_def split: list.splits if_splits)
qed

lemma forkserver_pid_then_wait:
  "pid_then_wait (snd (afl_forkserver FD pid rs st))"
  using loop_pid_then_wait [of FD]
  by (auto simp: afl_forkserver_def Let_def split: option.splits list.splits)

lemma forkserver_reads:
  "Sys_read fd n \<in> set (snd (afl_forkserver FD pid rs st)) \<Longrightarrow> fd = FD \<and> n = 4"
  using loop_reads [of fd n FD]
  by (auto simp: afl_forkserver_def Let_def split: option.splits list.splits if_splits)

lemma loop_parent_step:
  assumes "ret r = 4" "0 < ret f" "ret w = 4"
  shows "forkserver_loop FD (r # f # w # rs) st =
     after [Sys_read FD 4, Sys_fork, Sys_printf ''[Qemu] Parent will wait until child exit'',
            Sys_write (FD + 1) (Buf_child_pid (ret f)), Sys_waitpid (ret f)]
       (case rs of
          [] \<Rightarrow> (Blocked, [])
        | c # rs \<Rightarrow>
            if ret c < 0 then (Exited 6, [])
            else after [Sys_write (FD + 1) (Buf_status (out c))]
              (case rs of
                 [] \<Rightarrow> (Blocked, [])
               | w # rs \<Rightarrow>
                   if ret w \<noteq> 4 then (Exited 7, [])
                   else after [Sys_sleep 5] (forkserver_loop FD rs (st\<lparr>tmp := out r\<rparr>))))"
  using assms by (simp add: Let_def after_def split: list.splits)

lemma good_prefix:
  fixes st :: "'a::len word afl_state"
  assumes "\<forall>it \<in> set its. \<exists>r f w c v. it = [r, f, w, c, v] \<and>
             ret r = 4 \<and> 0 < ret f \<and> ret w = 4 \<and> 0 \<le> ret c \<and> ret v = 4"
  shows "\<exists>tr st'. \<forall>rest. forkserver_loop FD (concat its @ rest) st =
            after tr (forkserver_loop FD rest st')"
  using assms
proof (induction its arbitrary: st)
  case Nil
  have "\<forall>rest. forkserver_loop FD (concat [] @ rest) st = after [] (forkserver_loop FD rest st)"
    by (simp add: after_def)
  then show ?case by blast
next
  case (Cons it its)
  then obtain r f w c v where it: "it = [r, f, w, c, v]"
    and ok: "ret r = 4" "0 < ret f" "ret w = 4" "0 \<le> ret c" "ret v = 4"
    by auto
  from Cons obtain tr st' where
    ih: "\<forall>rest. forkserver_loop FD (concat its @ rest) (st\<lparr>tmp := out r\<rparr>) =
            after tr (forkserver_loop FD rest st')"
    by (metis list.set_intros(2))
  let ?cs = "[Sys_read FD 4, Sys_fork, Sys_printf ''[Qemu] Parent will wait until child exit'',
            Sys_write (FD + 1) (Buf_child_pid (ret f)), Sys_waitpid (ret f),
            Sys_write (FD + 1) (Buf_status (out c)), Sys_sleep 5]"
  have "\<forall>rest. forkserver_loop FD (concat (it # its) @ rest) st =
            after (?cs @ tr) (forkserver_loop FD rest st')"
    using ok ih by (simp add: it Let_def after_def)
  then show ?case by blast
qed

lemma forkserver_engaged:
  fixes st :: "'a::len word afl_state"
  assumes "afl_area_ptr st = Some a" and "ret h = 4"
  shows "afl_forkserver FD pid (h # rs) st =
     after [Sys_printf ''[Qemu] write %x to AFL'', Sys_write (FD + 1) (Buf_tmp (tmp st)),
            Sys_getpid, Sys_printf ''[+] afl_forksrv_pid: %d'']
       (forkserver_loop FD rs (st\<lparr>afl_forksrv_pid := word_of_int pid\<rparr>))"
  using assms by (simp add: afl_forkserver_def after_def Let_def)

lemma wait_tsl_shape:
  fixes rs :: "(int \<times> 'a::len word afl_tsl) list"
  shows "afl_wait_tsl sz fd rs =
     (let k = length (takeWhile (\<lambda>(n, t). n = int sz) rs)
      in if k < length rs
         then (Returned (), replicate (Suc k) (Sys_read fd sz) @ [Sys_close fd])
         else (Blocked, replicate (Suc k) (Sys_read fd sz)))"
proof (induction rs)
  case Nil
  show ?case by simp
next
  case (Cons x rs)
  obtain n t where x: "x = (n, t)" by (cases x)
  show ?case using Cons by (simp add: x Let_def after_def)
qed

section \<open>C1: the parent between the pid write and waitpid\<close>

text \<open>
  Claim C1, in the form that holds of the code. The call of \<open>afl_wait_tsl\<close> and the set-up of its pipe are
  commented out in \<open>afl_forkserver\<close>, so the parent does not drain the relay channel.
  What holds for every run of the fork server: a write of the child's pid that is followed
  by any call at all is followed by \<open>waitpid\<close> on that child; the only \<open>read\<close> the fork
  server ever issues is the 4-byte read of the go signal on \<open>FORKSRV_FD\<close>; and in every
  loop iteration in which the go signal arrives, \<open>fork\<close> returns a child and the pid write
  returns 4, the calls of the iteration are \<open>read\<close>, \<open>fork\<close>, \<open>printf\<close>, the pid write and
  then \<open>waitpid\<close>, with nothing in between.
\<close>

theorem parent_waits_without_relay_drain:
  fixes st :: "'a::len word afl_state"
  shows "(snd (afl_forkserver FORKSRV_FD pid rs st) = pre @ Sys_write fd (Buf_child_pid p) # e # post
            \<longrightarrow> e = Sys_waitpid p) \<and>
         (Sys_read fd' n \<in> set (snd (afl_forkserver FORKSRV_FD pid rs st))
            \<longrightarrow> fd' = FORKSRV_FD \<and> n = 4) \<and>
         (ret r = 4 \<and> 0 < ret f \<and> ret w = 4 \<longrightarrow>
            (\<exists>rest. forkserver_loop FORKSRV_FD (r # f # w # rs') st =
               after [Sys_read FORKSRV_FD 4, Sys_fork,
                      Sys_printf ''[Qemu] Parent will wait until child exit'',
                      Sys_write (FORKSRV_FD + 1) (Buf_child_pid (ret f)),
                      Sys_waitpid (ret f)] rest))"
proof -
  have 1: "e = Sys_waitpid p"
    if "snd (afl_forkserver FORKSRV_FD pid rs st) = pre @ Sys_write fd (Buf_child_pid p) # e # post"
    using forkserver_pid_then_wait [of FORKSRV_FD pid rs st] that by (rule pid_then_wait_decomp)
  have 2: "fd' = FORKSRV_FD \<and> n = 4"
    if "Sys_read fd' n \<in> set (snd (afl_forkserver FORKSRV_FD pid rs st))"
    using that by (rule forkserver_reads)
  have 3: "\<exists>rest. forkserver_loop FORKSRV_FD (r # f # w # rs') st =
               after [Sys_read FORKSRV_FD 4, Sys_fork,
                      Sys_printf ''[Qemu] Parent will wait until child exit'',
                      Sys_write (FORKSRV_FD + 1) (Buf_child_pid (ret f)),
                      Sys_waitpid (ret f)] rest"
    if "ret r = 4 \<and> 0 < ret f \<and> ret w = 4"
    using that loop_parent_step [of r f w FORKSRV_FD rs' st] by blast
  from 1 2 3 show ?thesis by blast
qed

theorem parent_waits_without_relay_drain_witness:
  "snd (afl_forkserver 198 1000
          [\<lparr>ret = 4, out = 0\<rparr>, \<lparr>ret = 4, out = 0\<rparr>, \<lparr>ret = 77, out = 0\<rparr>,
           \<lparr>ret = 4, out = 0\<rparr>]
          ((afl_init 65536 :: 64 word afl_state)\<lparr>afl_area_ptr := Some (\<lambda>_. 0)\<rparr>)) =
     [Sys_printf ''[Qemu] write %x to AFL'', Sys_write 199 (Buf_tmp 0x34333231),
      Sys_getpid, Sys_printf ''[+] afl_forksrv_pid: %d'',
      Sys_read 198 4, Sys_fork, Sys_printf ''[Qemu] Parent will wait until child exit'']
     @ Sys_write 199 (Buf_child_pid 77) # Sys_waitpid 77 # [] \<and>
   Sys_read 198 4 \<in> set (snd (afl_forkserver 198 1000
          [\<lparr>ret = 4, out = 0\<rparr>, \<lparr>ret = 4, out = 0\<rparr>, \<lparr>ret = 77, out = 0\<rparr>,
           \<lparr>ret = 4, out = 0\<rparr>]
          ((afl_init 65536 :: 64 word afl_state)\<lparr>afl_area_ptr := Some (\<lambda>_. 0)\<rparr>))) \<and>
   ret \<lparr>ret = 4, out = 0\<rparr> = 4 \<and> 0 < ret \<lparr>ret = 77, out = 0\<rparr> \<and>
   (\<exists>rest. forkserver_loop 198 [\<lparr>ret = 4, out = 0\<rparr>, \<lparr>ret = 77, out = 0\<rparr>, \<lparr>ret = 4, out = 0\<rparr>]
             (afl_init 65536 :: 64 word afl_state) =
      after [Sys_read 198 4, Sys_fork, Sys_printf ''[Qemu] Parent will wait until child exit'',
             Sys_write (198 + 1) (Buf_child_pid (ret \<lparr>ret = 77, out = 0\<rparr>)),
             Sys_waitpid (ret \<lparr>ret = 77, out = 0\<rparr>)] rest)"
  using parent_waits_without_relay_drain [of 198 1000
          "[\<lparr>ret = 4, out = 0\<rparr>, \<lparr>ret = 4, out = 0\<rparr>, \<lparr>ret = 77, out = 0\<rparr>, \<lparr>ret = 4, out = 0\<rparr>]"
          "(afl_init 65536 :: 64 word afl_state)\<lparr>afl_area_ptr := Some (\<lambda>_. 0)\<rparr>"
          "[Sys_printf ''[Qemu] write %x to AFL'', Sys_write 199 (Buf_tmp 0x34333231),
            Sys_getpid, Sys_printf ''[+] afl_forksrv_pid: %d'',
            Sys_read 198 4, Sys_fork, Sys_printf ''[Qemu] Parent will wait until child exit'']"
          199 77 "Sys_waitpid 77" "[]" 198 4
          "\<lparr>ret = 4, out = 0\<rparr>" "\<lparr>ret = 77, out = 0\<rparr>" "\<lparr>ret = 4, out = 0\<rparr>" "[]"]
  by (simp add: afl_forkserver_def afl_init_def after_def)

text \<open>
  Claim C1 as stated fails. One full iteration against a controller that answers every
  call: the complete list of calls shows \<open>waitpid\<close> directly after the pid write, and no
  read of a relay channel anywhere.
\<close>

theorem relay_drain_counterexample:
  "snd (afl_forkserver 198 1000
          [\<lparr>ret = 4, out = 0\<rparr>, \<lparr>ret = 4, out = 0\<rparr>, \<lparr>ret = 1234, out = 0\<rparr>,
           \<lparr>ret = 4, out = 0\<rparr>, \<lparr>ret = 1234, out = 0\<rparr>, \<lparr>ret = 4, out = 0\<rparr>]
          ((afl_init 65536 :: 64 word afl_state)\<lparr>afl_area_ptr := Some (\<lambda>_. 0)\<rparr>)) =
     [Sys_printf ''[Qemu] write %x to AFL'', Sys_write 199 (Buf_tmp 0x34333231),
      Sys_getpid, Sys_printf ''[+] afl_forksrv_pid: %d'',
      Sys_read 198 4, Sys_fork, Sys_printf ''[Qemu] Parent will wait until child exit'',
      Sys_write 199 (Buf_child_pid 1234), Sys_waitpid 1234,
      Sys_write 199 (Buf_status 0), Sys_sleep 5, Sys_read 198 4]"
  by (simp add: afl_forkserver_def afl_init_def after_def)

section \<open>C2: the relay receiver\<close>

text \<open>
  Claim C2, in the form that holds of the code. The receiver keeps reading messages of \<open>sz\<close> bytes until a \<open>read\<close>
  returns anything other than \<open>sz\<close> and then closes the channel (if every \<open>read\<close> that
  returns gives \<open>sz\<close>, it waits in the next \<open>read\<close>). It does nothing else with a message:
  the look-up and the call of \<open>tb_gen_code\<close> are commented out, so no compile request is
  ever made.
\<close>

theorem wait_tsl_reads_then_closes:
  fixes rs :: "(int \<times> 'a::len word afl_tsl) list"
  shows "afl_wait_tsl sz fd rs =
     (let k = length (takeWhile (\<lambda>(n, t). n = int sz) rs)
      in if k < length rs
         then (Returned (), replicate (Suc k) (Sys_read fd sz) @ [Sys_close fd])
         else (Blocked, replicate (Suc k) (Sys_read fd sz))) \<and>
     Tb_gen_code x y z \<notin> set (snd (afl_wait_tsl sz fd rs))"
proof -
  have "Tb_gen_code x y z \<notin> set (snd (afl_wait_tsl sz fd rs))"
    unfolding wait_tsl_shape by (simp add: Let_def)
  then show ?thesis using wait_tsl_shape [of sz fd rs] by blast
qed

theorem wait_tsl_reads_then_closes_witness:
  "afl_wait_tsl 24 197
     [(24, \<lparr>pc = 0x4005d0 :: 64 word, cs_base = 0, flags = 0\<rparr>),
      (24, \<lparr>pc = 0x4005e0, cs_base = 0, flags = 0\<rparr>),
      (24, \<lparr>pc = 0x4005f0, cs_base = 0, flags = 0\<rparr>),
      (0, \<lparr>pc = 0, cs_base = 0, flags = 0\<rparr>)] =
     (Returned (), [Sys_read 197 24, Sys_read 197 24, Sys_read 197 24, Sys_read 197 24,
                    Sys_close 197])"
  using wait_tsl_reads_then_closes [of 24 197
     "[(24, \<lparr>pc = 0x4005d0 :: 64 word, cs_base = 0, flags = 0\<rparr>),
      (24, \<lparr>pc = 0x4005e0, cs_base = 0, flags = 0\<rparr>),
      (24, \<lparr>pc = 0x4005f0, cs_base = 0, flags = 0\<rparr>),
      (0, \<lparr>pc = 0, cs_base = 0, flags = 0\<rparr>)]" 0 0 0]
  by (simp add: after_def)

text \<open>
  Claim C2 as stated fails. One message arrives, then the channel closes: the receiver
  reads twice and closes, and makes no compile request for the block of the message.
\<close>

theorem wait_tsl_compile_counterexample:
  "afl_wait_tsl 24 197
     [(24, \<lparr>pc = 0x4005d0 :: 64 word, cs_base = 0, flags = 0\<rparr>),
      (0, \<lparr>pc = 0, cs_base = 0, flags = 0\<rparr>)] =
     (Returned (), [Sys_read 197 24, Sys_read 197 24, Sys_close 197]) \<and>
   Tb_gen_code 0x4005d0 0 0 \<notin> set (snd (afl_wait_tsl 24 197
     [(24, \<lparr>pc = 0x4005d0 :: 64 word, cs_base = 0, flags = 0\<rparr>),
      (0, \<lparr>pc = 0, cs_base = 0, flags = 0\<rparr>)]))"
  by (simp add: after_def)

section \<open>C3: sampling\<close>



section \<open>C4: scrambling\<close>

text \<open>
  Claim C4. The scrambled value of \<open>addr\<close> is
  \<open>((addr >> 4) XOR (addr << 8)) AND (MAP_SIZE - 1)\<close>: a recording call increments the byte
  at that value XOR \<open>prev_loc\<close> (at that value itself when \<open>prev_loc\<close> is 0) and stores half
  of it in \<open>prev_loc\<close>. The value depends on the address and \<open>MAP_SIZE\<close> alone: it is the
  same for every state, and calling the logger again with the same address uses the same
  value again.
\<close>

theorem scrambled_index:
  fixes addr :: "'a::len word" and st :: "'a word afl_state"
  assumes "afl_area_ptr st = Some a"
    and "loc = (drop_bit 4 addr XOR push_bit 8 addr) AND word_of_int (MAP_SIZE - 1)"
    and "unat loc < unat (afl_inst_rms st)"
    and "st1 = afl_maybe_log MAP_SIZE addr st"
    and "i = unat (loc XOR prev_loc st)"
    and "j = unat (loc XOR drop_bit 1 loc)"
  shows "st1 = st\<lparr>afl_area_ptr := Some (a(i := a i + 1)), prev_loc := drop_bit 1 loc\<rparr> \<and>
         (prev_loc st = 0 \<longrightarrow> i = unat loc) \<and>
         afl_maybe_log MAP_SIZE addr st1 =
           st1\<lparr>afl_area_ptr := Some ((a(i := a i + 1))(j := (a(i := a i + 1)) j + 1)),
                prev_loc := drop_bit 1 loc\<rparr>"
proof -
  have 1: "st1 = st\<lparr>afl_area_ptr := Some (a(i := a i + 1)), prev_loc := drop_bit 1 loc\<rparr>"
    unfolding assms(4,5) using assms(1,2,3) by (rule log_recorded)
  have "afl_area_ptr st1 = Some (a(i := a i + 1))" "unat loc < unat (afl_inst_rms st1)"
     "prev_loc st1 = drop_bit 1 loc"
    using 1 assms(3) by simp_all
  then have 2: "afl_maybe_log MAP_SIZE addr st1 =
           st1\<lparr>afl_area_ptr := Some ((a(i := a i + 1))(j := (a(i := a i + 1)) j + 1)),
                prev_loc := drop_bit 1 loc\<rparr>"
    using assms(2,6) log_recorded [of st1 "a(i := a i + 1)" loc addr MAP_SIZE] by simp
  from 1 2 assms(5) show ?thesis by simp
qed

theorem scrambled_index_witness:
  "afl_area_ptr ((afl_init 65536 :: 64 word afl_state)\<lparr>afl_area_ptr := Some (\<lambda>_. 0)\<rparr>) = Some (\<lambda>_. 0) \<and>
   (0xd05d :: 64 word) = (drop_bit 4 0x4005d0 XOR push_bit 8 0x4005d0) AND word_of_int (65536 - 1) \<and>
   afl_maybe_log 65536 (0x4005d0 :: 64 word) ((afl_init 65536)\<lparr>afl_area_ptr := Some (\<lambda>_. 0)\<rparr>) =
     ((afl_init 65536)\<lparr>afl_area_ptr := Some (\<lambda>_. 0)\<rparr>)
       \<lparr>afl_area_ptr := Some ((\<lambda>_. 0)(53341 := 0 + 1)), prev_loc := drop_bit 1 0xd05d\<rparr>"
proof -
  let ?st = "(afl_init 65536 :: 64 word afl_state)\<lparr>afl_area_ptr := Some (\<lambda>_. 0)\<rparr>"
  have h1: "afl_area_ptr ?st = Some (\<lambda>_. 0)"
    by (simp add: afl_init_def)
  have h2: "(0xd05d :: 64 word) = (drop_bit 4 0x4005d0 XOR push_bit 8 0x4005d0) AND word_of_int (65536 - 1)"
    by simp
  have h3: "unat (0xd05d :: 64 word) < unat (afl_inst_rms ?st)"
    by (simp add: afl_init_def)
  have h4: "53341 = unat ((0xd05d :: 64 word) XOR prev_loc ?st)"
    by (simp add: afl_init_def)
  have h5: "47219 = unat ((0xd05d :: 64 word) XOR drop_bit 1 0xd05d)"
    by simp
  from scrambled_index [OF h1 h2 h3 refl h4 h5] h1 h2 show ?thesis by blast
qed

section \<open>C5: fatal framing failures\<close>

text \<open>
  Claim C5. Let the bitmap be attached and the handshake write return 4, and let any number
  of loop iterations \<open>its\<close> have completed. Then a read of the go signal that does not
  return 4 ends the process with code 2 (right after printing \<open>[!] Parent dead!\<close>); a
  failed \<open>fork\<close> ends it with code 4; a pid write that does not return 4, with code 5; a
  failed \<open>waitpid\<close>, with code 6; a status write that does not return 4, with code 7.
  In each case the failing call is the last call the process makes. The five codes are
  pairwise distinct and none is 0.
\<close>

theorem framing_failures_exit:
  fixes st :: "'a::len word afl_state"
  assumes "afl_area_ptr st = Some a" and "ret h = 4"
    and "\<forall>it \<in> set its. \<exists>r f w c v. it = [r, f, w, c, v] \<and>
             ret r = 4 \<and> 0 < ret f \<and> ret w = 4 \<and> 0 \<le> ret c \<and> ret v = 4"
  shows "\<exists>tr.
    (ret r \<noteq> 4 \<longrightarrow>
       afl_forkserver FORKSRV_FD pid (h # concat its @ r # rs) st =
         (Exited 2, tr @ [Sys_read FORKSRV_FD 4, Sys_puts ''[!] Parent dead!''])) \<and>
    (ret r = 4 \<and> ret f < 0 \<longrightarrow>
       afl_forkserver FORKSRV_FD pid (h # concat its @ r # f # rs) st =
         (Exited 4, tr @ [Sys_read FORKSRV_FD 4, Sys_fork])) \<and>
    (ret r = 4 \<and> 0 < ret f \<and> ret w \<noteq> 4 \<longrightarrow>
       afl_forkserver FORKSRV_FD pid (h # concat its @ r # f # w # rs) st =
         (Exited 5, tr @ [Sys_read FORKSRV_FD 4, Sys_fork,
                          Sys_printf ''[Qemu] Parent will wait until child exit'',
                          Sys_write (FORKSRV_FD + 1) (Buf_child_pid (ret f))])) \<and>
    (ret r = 4 \<and> 0 < ret f \<and> ret w = 4 \<and> ret c < 0 \<longrightarrow>
       afl_forkserver FORKSRV_FD pid (h # concat its @ r # f # w # c # rs) st =
         (Exited 6, tr @ [Sys_read FORKSRV_FD 4, Sys_fork,
                          Sys_printf ''[Qemu] Parent will wait until child exit'',
                          Sys_write (FORKSRV_FD + 1) (Buf_child_pid (ret f)),
                          Sys_waitpid (ret f)])) \<and>
    (ret r = 4 \<and> 0 < ret f \<and> ret w = 4 \<and> 0 \<le> ret c \<and> ret v \<noteq> 4 \<longrightarrow>
       afl_forkserver FORKSRV_FD pid (h # concat its @ r # f # w # c # v # rs) st =
         (Exited 7, tr @ [Sys_read FORKSRV_FD 4, Sys_fork,
                          Sys_printf ''[Qemu] Parent will wait until child exit'',
                          Sys_write (FORKSRV_FD + 1) (Buf_child_pid (ret f)),
                          Sys_waitpid (ret f),
                          Sys_write (FORKSRV_FD + 1) (Buf_status (out c))])) \<and>
    distinct [2, 4, 5, 6, 7 :: int] \<and> (0 :: int) \<notin> set [2, 4, 5, 6, 7]"
proof -
  let ?st = "st\<lparr>afl_forksrv_pid := word_of_int pid\<rparr>"
  let ?hs = "[Sys_printf ''[Qemu] write %x to AFL'', Sys_write (FORKSRV_FD + 1) (Buf_tmp (tmp st)),
            Sys_getpid, Sys_printf ''[+] afl_forksrv_pid: %d'']"
  from good_prefix [OF assms(3), of FORKSRV_FD ?st] obtain tr st' where
    "\<And>rest. forkserver_loop FORKSRV_FD (concat its @ rest) ?st =
            after tr (forkserver_loop FORKSRV_FD rest st')"
    by blast
  then have p: "\<And>rest. afl_forkserver FORKSRV_FD pid (h # concat its @ rest) st =
            after (?hs @ tr) (forkserver_loop FORKSRV_FD rest st')"
    by (simp add: forkserver_engaged [OF assms(1,2)] after_def)
  have 1: "afl_forkserver FORKSRV_FD pid (h # concat its @ r # rs) st =
         (Exited 2, (?hs @ tr) @ [Sys_read FORKSRV_FD 4, Sys_puts ''[!] Parent dead!''])"
    if "ret r \<noteq> 4"
    unfolding p using that by (simp add: after_def Let_def)
  have 2: "afl_forkserver FORKSRV_FD pid (h # concat its @ r # f # rs) st =
         (Exited 4, (?hs @ tr) @ [Sys_read FORKSRV_FD 4, Sys_fork])"
    if "ret r = 4 \<and> ret f < 0"
    unfolding p using that by (simp add: after_def Let_def)
  have 3: "afl_forkserver FORKSRV_FD pid (h # concat its @ r # f # w # rs) st =
         (Exited 5, (?hs @ tr) @ [Sys_read FORKSRV_FD 4, Sys_fork,
                          Sys_printf ''[Qemu] Parent will wait until child exit'',
                          Sys_write (FORKSRV_FD + 1) (Buf_child_pid (ret f))])"
    if "ret r = 4 \<and> 0 < ret f \<and> ret w \<noteq> 4"
    unfolding p using that by (simp add: after_def Let_def)
  have 4: "afl_forkserver FORKSRV_FD pid (h # concat its @ r # f # w # c # rs) st =
         (Exited 6, (?hs @ tr) @ [Sys_read FORKSRV_FD 4, Sys_fork,
                          Sys_printf ''[Qemu] Parent will wait until child exit'',
                          Sys_write (FORKSRV_FD + 1) (Buf_child_pid (ret f)),
                          Sys_waitpid (ret f)])"
    if "ret r = 4 \<and> 0 < ret f \<and> ret w = 4 \<and> ret c < 0"
    unfolding p using that by (simp add: after_def Let_def)
  have 5: "afl_forkserver FORKSRV_FD pid (h # concat its @ r # f # w # c # v # rs) st =
         (Exited 7, (?hs @ tr) @ [Sys_read FORKSRV_FD 4, Sys_fork,
                          Sys_printf ''[Qemu] Parent will wait until child exit'',
                          Sys_write (FORKSRV_FD + 1) (Buf_child_pid (ret f)),
                          Sys_waitpid (ret f),
                          Sys_write (FORKSRV_FD + 1) (Buf_status (out c))])"
    if "ret r = 4 \<and> 0 < ret f \<and> ret w = 4 \<and> 0 \<le> ret c \<and> ret v \<noteq> 4"
    unfolding p using that by (simp add: after_def Let_def)
  have 6: "distinct [2, 4, 5, 6, 7 :: int] \<and> (0 :: int) \<notin> set [2, 4, 5, 6, 7]" by simp
  from 1 2 3 4 5 6 show ?thesis by blast
qed

theorem framing_failures_exit_witness:
  "fst (afl_forkserver 198 1000
     (\<lparr>ret = 4, out = 0\<rparr> #
      concat ([\<lparr>ret = 4, out = 0\<rparr>, \<lparr>ret = 77, out = 0\<rparr>, \<lparr>ret = 4, out = 0\<rparr>,
               \<lparr>ret = 77, out = 0\<rparr>, \<lparr>ret = 4, out = 0\<rparr>] # []) @ \<lparr>ret = 0, out = 0\<rparr> # [])
     ((afl_init 65536 :: 64 word afl_state)\<lparr>afl_area_ptr := Some (\<lambda>_. 0)\<rparr>)) = Exited 2 \<and>
   fst (afl_forkserver 198 1000
     (\<lparr>ret = 4, out = 0\<rparr> #
      concat ([\<lparr>ret = 4, out = 0\<rparr>, \<lparr>ret = 77, out = 0\<rparr>, \<lparr>ret = 4, out = 0\<rparr>,
               \<lparr>ret = 77, out = 0\<rparr>, \<lparr>ret = 4, out = 0\<rparr>] # []) @
        \<lparr>ret = 4, out = 0\<rparr> # \<lparr>ret = - 1, out = 0\<rparr> # [])
     ((afl_init 65536 :: 64 word afl_state)\<lparr>afl_area_ptr := Some (\<lambda>_. 0)\<rparr>)) = Exited 4 \<and>
   fst (afl_forkserver 198 1000
     (\<lparr>ret = 4, out = 0\<rparr> #
      concat ([\<lparr>ret = 4, out = 0\<rparr>, \<lparr>ret = 77, out = 0\<rparr>, \<lparr>ret = 4, out = 0\<rparr>,
               \<lparr>ret = 77, out = 0\<rparr>, \<lparr>ret = 4, out = 0\<rparr>] # []) @
        \<lparr>ret = 4, out = 0\<rparr> # \<lparr>ret = 78, out = 0\<rparr> # \<lparr>ret = 2, out = 0\<rparr> # [])
     ((afl_init 65536 :: 64 word afl_state)\<lparr>afl_area_ptr := Some (\<lambda>_. 0)\<rparr>)) = Exited 5 \<and>
   fst (afl_forkserver 198 1000
     (\<lparr>ret = 4, out = 0\<rparr> #
      concat ([\<lparr>ret = 4, out = 0\<rparr>, \<lparr>ret = 77, out = 0\<rparr>, \<lparr>ret = 4, out = 0\<rparr>,
               \<lparr>ret = 77, out = 0\<rparr>, \<lparr>ret = 4, out = 0\<rparr>] # []) @
        \<lparr>ret = 4, out = 0\<rparr> # \<lparr>ret = 78, out = 0\<rparr> # \<lparr>ret = 4, out = 0\<rparr> #
        \<lparr>ret = - 1, out = 0\<rparr> # [])
     ((afl_init 65536 :: 64 word afl_state)\<lparr>afl_area_ptr := Some (\<lambda>_. 0)\<rparr>)) = Exited 6 \<and>
   fst (afl_forkserver 198 1000
     (\<lparr>ret = 4, out = 0\<rparr> #
      concat ([\<lparr>ret = 4, out = 0\<rparr>, \<lparr>ret = 77, out = 0\<rparr>, \<lparr>ret = 4, out = 0\<rparr>,
               \<lparr>ret = 77, out = 0\<rparr>, \<lparr>ret = 4, out = 0\<rparr>] # []) @
        \<lparr>ret = 4, out = 0\<rparr> # \<lparr>ret = 78, out = 0\<rparr> # \<lparr>ret = 4, out = 0\<rparr> #
        \<lparr>ret = 78, out = 0\<rparr> # \<lparr>ret = 0, out = 0\<rparr> # [])
     ((afl_init 65536 :: 64 word afl_state)\<lparr>afl_area_ptr := Some (\<lambda>_. 0)\<rparr>)) = Exited 7"
proof -
  let ?ok = "\<lparr>ret = 4, out = 0 :: 32 word\<rparr>"
  let ?pid = "\<lparr>ret = 78, out = 0 :: 32 word\<rparr>"
  let ?bad = "\<lparr>ret = - 1, out = 0 :: 32 word\<rparr>"
  let ?its = "[?ok, \<lparr>ret = 77, out = 0\<rparr>, ?ok, \<lparr>ret = 77, out = 0\<rparr>, ?ok] # []"
  let ?st = "(afl_init 65536 :: 64 word afl_state)\<lparr>afl_area_ptr := Some (\<lambda>_. 0)\<rparr>"
  have h1: "afl_area_ptr ?st = Some (\<lambda>_. 0)"
    by simp
  have h2: "ret ?ok = 4"
    by simp
  have h: "\<forall>it \<in> set ?its. \<exists>r f w c v. it = [r, f, w, c, v] \<and>
         ret r = 4 \<and> 0 < ret f \<and> ret w = 4 \<and> 0 \<le> ret c \<and> ret v = 4"
    by simp
  note t = framing_failures_exit [OF h1 h2 h, where FORKSRV_FD = 198 and pid = 1000 and rs = "[]"]
  have a: "fst (afl_forkserver 198 1000 (?ok # concat ?its @ \<lparr>ret = 0, out = 0\<rparr> # []) ?st)
             = Exited 2"
  proof -
    have p: "ret \<lparr>ret = 0, out = 0 :: 32 word\<rparr> \<noteq> 4" by simp
    from t [where r = "\<lparr>ret = 0, out = 0\<rparr>"] p
    obtain tr where "afl_forkserver 198 1000 (?ok # concat ?its @ \<lparr>ret = 0, out = 0\<rparr> # []) ?st =
        (Exited 2, tr @ [Sys_read 198 4, Sys_puts ''[!] Parent dead!''])"
      by blast
    then show ?thesis by (simp only: fst_conv)
  qed
  have b: "fst (afl_forkserver 198 1000 (?ok # concat ?its @ ?ok # ?bad # []) ?st) = Exited 4"
  proof -
    have p: "ret ?ok = 4 \<and> ret ?bad < 0" by simp
    from t [where r = ?ok and f = ?bad] p
    obtain tr where "afl_forkserver 198 1000 (?ok # concat ?its @ ?ok # ?bad # []) ?st =
        (Exited 4, tr @ [Sys_read 198 4, Sys_fork])"
      by blast
    then show ?thesis by (simp only: fst_conv)
  qed
  have c: "fst (afl_forkserver 198 1000
             (?ok # concat ?its @ ?ok # ?pid # \<lparr>ret = 2, out = 0\<rparr> # []) ?st) = Exited 5"
  proof -
    have p: "ret ?ok = 4 \<and> 0 < ret ?pid \<and> ret \<lparr>ret = 2, out = 0 :: 32 word\<rparr> \<noteq> 4" by simp
    from t [where r = ?ok and f = ?pid and w = "\<lparr>ret = 2, out = 0\<rparr>"] p
    obtain tr where "afl_forkserver 198 1000
             (?ok # concat ?its @ ?ok # ?pid # \<lparr>ret = 2, out = 0\<rparr> # []) ?st =
        (Exited 5, tr @ [Sys_read 198 4, Sys_fork,
                          Sys_printf ''[Qemu] Parent will wait until child exit'',
                          Sys_write (198 + 1) (Buf_child_pid (ret ?pid))])"
      by blast
    then show ?thesis by (simp only: fst_conv)
  qed
  have d: "fst (afl_forkserver 198 1000 (?ok # concat ?its @ ?ok # ?pid # ?ok # ?bad # []) ?st)
             = Exited 6"
  proof -
    have p: "ret ?ok = 4 \<and> 0 < ret ?pid \<and> ret ?ok = 4 \<and> ret ?bad < 0" by simp
    from t [where r = ?ok and f = ?pid and w = ?ok and c = ?bad] p
    obtain tr where "afl_forkserver 198 1000 (?ok # concat ?its @ ?ok # ?pid # ?ok # ?bad # []) ?st =
        (Exited 6, tr @ [Sys_read 198 4, Sys_fork,
                          Sys_printf ''[Qemu] Parent will wait until child exit'',
                          Sys_write (198 + 1) (Buf_child_pid (ret ?pid)),
                          Sys_waitpid (ret ?pid)])"
      by blast
    then show ?thesis by (simp only: fst_conv)
  qed
  have e: "fst (afl_forkserver 198 1000
             (?ok # concat ?its @ ?ok # ?pid # ?ok # ?pid # \<lparr>ret = 0, out = 0\<rparr> # []) ?st)
             = Exited 7"
  proof -
    have p: "ret ?ok = 4 \<and> 0 < ret ?pid \<and> ret ?ok = 4 \<and> 0 \<le> ret ?pid \<and>
             ret \<lparr>ret = 0, out = 0 :: 32 word\<rparr> \<noteq> 4" by simp
    from t [where r = ?ok and f = ?pid and w = ?ok and c = ?pid and v = "\<lparr>ret = 0, out = 0\<rparr>"] p
    obtain tr where "afl_forkserver 198 1000
             (?ok # concat ?its @ ?ok # ?pid # ?ok # ?pid # \<lparr>ret = 0, out = 0\<rparr> # []) ?st =
        (Exited 7, tr @ [Sys_read 198 4, Sys_fork,
                          Sys_printf ''[Qemu] Parent will wait until child exit'',
                          Sys_write (198 + 1) (Buf_child_pid (ret ?pid)),
                          Sys_waitpid (ret ?pid),
                          Sys_write (198 + 1) (Buf_status (out ?pid))])"
      by blast
    then show ?thesis by (simp only: fst_conv)
  qed
  from a b c d e show ?thesis by blast
qed

section \<open>C6: the handshake\<close>

text \<open>
  Claim C6. With the bitmap attached, if the handshake write returns anything other than
  4 the fork server returns to its caller with the state unchanged. The calls it has made
  are the \<open>printf\<close> and the handshake write: no read of the go signal, no \<open>fork\<close>, no
  exit.
\<close>

theorem handshake_fallback:
  fixes st :: "'a::len word afl_state"
  assumes "afl_area_ptr st = Some a" and "ret w \<noteq> 4"
  shows "afl_forkserver FORKSRV_FD pid (w # rs) st =
           (Returned st, [Sys_printf ''[Qemu] write %x to AFL'',
                          Sys_write (FORKSRV_FD + 1) (Buf_tmp (tmp st))])"
  using assms by (simp add: afl_forkserver_def after_def)

theorem handshake_fallback_witness:
  "afl_forkserver 198 1000 [\<lparr>ret = - 1, out = 0\<rparr>]
     ((afl_init 65536 :: 64 word afl_state)\<lparr>afl_area_ptr := Some (\<lambda>_. 0)\<rparr>) =
     (Returned ((afl_init 65536)\<lparr>afl_area_ptr := Some (\<lambda>_. 0)\<rparr>),
      [Sys_printf ''[Qemu] write %x to AFL'', Sys_write 199 (Buf_tmp 0x34333231)])"
  using handshake_fallback [of "(afl_init 65536 :: 64 word afl_state)\<lparr>afl_area_ptr := Some (\<lambda>_. 0)\<rparr>" "\<lambda>_. 0"
     "\<lparr>ret = - 1, out = 0\<rparr>" 198 1000 "[]"]
  by (simp add: afl_init_def)

section \<open>C7: no bitmap\<close>

text \<open>
  Claim C7. When \<open>afl_area_ptr\<close> is NULL the logger returns the state as it was (so
  neither a bitmap nor \<open>prev_loc\<close> changes), and the fork server returns at once, with
  the state as it was and without having made a single call.
\<close>

theorem unattached_noop:
  fixes addr :: "'a::len word" and st :: "'a word afl_state"
  assumes "afl_area_ptr st = None"
  shows "afl_maybe_log MAP_SIZE addr st = st \<and>
         afl_forkserver FORKSRV_FD pid rs st = (Returned st, [])"
  using assms by (simp add: afl_maybe_log_def afl_forkserver_def)

theorem unattached_noop_witness:
  "afl_area_ptr (afl_init 65536 :: 64 word afl_state) = None \<and>
   afl_maybe_log 65536 0x4005d0 (afl_init 65536 :: 64 word afl_state) = afl_init 65536 \<and>
   afl_forkserver 198 1000 [\<lparr>ret = 4, out = 0\<rparr>] (afl_init 65536 :: 64 word afl_state) =
     (Returned (afl_init 65536), [])"
  using unattached_noop [of "afl_init 65536 :: 64 word afl_state" 65536 "0x4005d0" 198 1000 "[\<lparr>ret = 4, out = 0\<rparr>]"]
  by (simp add: afl_init_def)

section \<open>C8: counters wrap\<close>

text \<open>
  Claim C8. A recording adds 1 modulo 256 to the byte it hits. Over any run of the logger
  the byte at offset \<open>i\<close> ends as its initial value plus the number of recordings at \<open>i\<close>,
  modulo 256; after 256 recordings a byte that was 0 is 0 again. Such a run exists: from a
  state whose \<open>prev_loc\<close> is half the scrambled value of \<open>addr\<close>, 256 calls with \<open>addr\<close>
  are 256 recordings of one edge, and they leave the whole state as it was.
\<close>

theorem counter_wraps:
  fixes addr :: "'a::len word" and st :: "'a word afl_state"
  assumes "afl_area_ptr st = Some a"
    and "loc = (drop_bit 4 addr XOR push_bit 8 addr) AND word_of_int (MAP_SIZE - 1)"
  shows "(unat loc < unat (afl_inst_rms st) \<longrightarrow>
            (\<exists>a1. afl_area_ptr (afl_maybe_log MAP_SIZE addr st) = Some a1 \<and>
               unat (a1 (unat (loc XOR prev_loc st))) =
                 (unat (a (unat (loc XOR prev_loc st))) + 1) mod 256)) \<and>
         (\<exists>a'. afl_area_ptr (fold (afl_maybe_log MAP_SIZE) addrs st) = Some a' \<and>
            unat (a' i) = (unat (a i) + recordings_at MAP_SIZE i addrs st) mod 256 \<and>
            (recordings_at MAP_SIZE i addrs st = 256 \<and> a i = 0 \<longrightarrow> a' i = 0)) \<and>
         (unat loc < unat (afl_inst_rms st) \<and> prev_loc st = drop_bit 1 loc \<longrightarrow>
            recordings_at MAP_SIZE (unat (loc XOR drop_bit 1 loc)) (replicate 256 addr) st = 256 \<and>
            fold (afl_maybe_log MAP_SIZE) (replicate 256 addr) st = st)"
proof -
  let ?i = "unat (loc XOR prev_loc st)"
  have 1: "\<exists>a1. afl_area_ptr (afl_maybe_log MAP_SIZE addr st) = Some a1 \<and>
               unat (a1 ?i) = (unat (a ?i) + 1) mod 256"
    if "unat loc < unat (afl_inst_rms st)"
  proof -
    have "afl_area_ptr (afl_maybe_log MAP_SIZE addr st) = Some (a(?i := a ?i + 1))"
      using log_recorded [OF assms that] by simp
    moreover have "unat ((a(?i := a ?i + 1)) ?i) = (unat (a ?i) + 1) mod 256"
      by (simp add: unat_word_ariths)
    ultimately show ?thesis by blast
  qed
  from run_counter [OF assms(1), of MAP_SIZE addrs i] obtain a' where
    a': "afl_area_ptr (fold (afl_maybe_log MAP_SIZE) addrs st) = Some a'"
        "a' i = a i + of_nat (recordings_at MAP_SIZE i addrs st)"
    by blast
  have "unat (a' i) = (unat (a i) + recordings_at MAP_SIZE i addrs st) mod 256"
    unfolding a'(2) by (rule byte_counter_mod)
  moreover have "a' i = 0" if "recordings_at MAP_SIZE i addrs st = 256 \<and> a i = 0"
    unfolding a'(2) using that by simp
  ultimately have 2: "\<exists>a'. afl_area_ptr (fold (afl_maybe_log MAP_SIZE) addrs st) = Some a' \<and>
            unat (a' i) = (unat (a i) + recordings_at MAP_SIZE i addrs st) mod 256 \<and>
            (recordings_at MAP_SIZE i addrs st = 256 \<and> a i = 0 \<longrightarrow> a' i = 0)"
    using a'(1) by blast
  have 3: "recordings_at MAP_SIZE (unat (loc XOR drop_bit 1 loc)) (replicate 256 addr) st = 256 \<and>
            fold (afl_maybe_log MAP_SIZE) (replicate 256 addr) st = st"
    if h: "unat loc < unat (afl_inst_rms st) \<and> prev_loc st = drop_bit 1 loc"
  proof -
    from h have lt: "unat loc < unat (afl_inst_rms st)" and p: "prev_loc st = drop_bit 1 loc"
      by blast+
    let ?j = "unat (loc XOR drop_bit 1 loc)"
    have "(afl_maybe_log MAP_SIZE addr ^^ 256) st =
            st\<lparr>afl_area_ptr := Some (a(?j := a ?j + of_nat 256))\<rparr>"
      by (rule log_same_edge_funpow [OF assms lt p refl])
    also have "\<dots> = st\<lparr>afl_area_ptr := Some a\<rparr>"
      by (simp only: byte_add_256 fun_upd_triv)
    also have "\<dots> = st" using assms(1) by (rule area_ptr_upd_same)
    finally have "fold (afl_maybe_log MAP_SIZE) (replicate 256 addr) st = st"
      by (simp only: fold_replicate)
    with recordings_same_edge [OF assms lt p, of 256] show ?thesis by blast
  qed
  from 1 2 3 show ?thesis by blast
qed

theorem counter_wraps_witness:
  "afl_area_ptr ((afl_init 65536 :: 64 word afl_state)
      \<lparr>afl_area_ptr := Some (\<lambda>_. 0), prev_loc := 0x682e\<rparr>) = Some (\<lambda>_. 0) \<and>
   (0xd05d :: 64 word) = (drop_bit 4 0x4005d0 XOR push_bit 8 0x4005d0) AND word_of_int (65536 - 1) \<and>
   recordings_at 65536 47219 (replicate 256 (0x4005d0 :: 64 word))
     ((afl_init 65536)\<lparr>afl_area_ptr := Some (\<lambda>_. 0), prev_loc := 0x682e\<rparr>) = 256 \<and>
   (\<exists>a'. afl_area_ptr (fold (afl_maybe_log 65536) (replicate 256 (0x4005d0 :: 64 word))
             ((afl_init 65536)\<lparr>afl_area_ptr := Some (\<lambda>_. 0), prev_loc := 0x682e\<rparr>)) = Some a' \<and>
          a' 47219 = 0) \<and>
   (\<exists>a1. afl_area_ptr (afl_maybe_log 65536 (0x4005d0 :: 64 word)
             ((afl_init 65536)\<lparr>afl_area_ptr := Some (\<lambda>_. 0), prev_loc := 0x682e\<rparr>)) = Some a1 \<and>
          unat (a1 47219) = 1)"
proof -
  let ?st = "(afl_init 65536 :: 64 word afl_state)\<lparr>afl_area_ptr := Some (\<lambda>_. 0), prev_loc := 0x682e\<rparr>"
  let ?a = "(\<lambda>_. 0) :: area"
  have h1: "afl_area_ptr ?st = Some ?a"
    by (simp add: afl_init_def)
  have h2: "(0xd05d :: 64 word) = (drop_bit 4 0x4005d0 XOR push_bit 8 0x4005d0) AND word_of_int (65536 - 1)"
    by simp
  have h3: "unat (0xd05d :: 64 word) < unat (afl_inst_rms ?st)"
    by (simp add: afl_init_def)
  have h4: "prev_loc ?st = drop_bit 1 0xd05d"
    by (simp add: afl_init_def)
  have h5: "unat ((0xd05d :: 64 word) XOR drop_bit 1 0xd05d) = 47219"
    by simp
  have h6: "unat ((0xd05d :: 64 word) XOR prev_loc ?st) = 47219"
    by (simp add: afl_init_def)
  have h7: "(unat (0 :: 8 word) + 1) mod 256 = 1"
    by simp
  note t = counter_wraps [OF h1 h2, where addrs = "replicate 256 0x4005d0" and i = 47219,
      unfolded h5 h6 h7]
  from t h3 h4 have r: "recordings_at 65536 47219 (replicate 256 (0x4005d0 :: 64 word)) ?st = 256"
    by blast
  from t r have "\<exists>a'. afl_area_ptr (fold (afl_maybe_log 65536) (replicate 256 (0x4005d0 :: 64 word)) ?st)
        = Some a' \<and> a' 47219 = 0"
    by blast
  moreover from t h3 have "\<exists>a1. afl_area_ptr (afl_maybe_log 65536 (0x4005d0 :: 64 word) ?st) = Some a1 \<and>
          unat (a1 47219) = 1"
    by blast
  ultimately show ?thesis using h1 h2 r by blast
qed

section \<open>C9: prev_loc\<close>

text \<open>
  Claim C9. When the logger records an address whose scrambled value is \<open>v\<close>, \<open>prev_loc\<close>
  is \<open>v >> 1\<close> afterwards, whatever value \<open>p\<close> it had before.
\<close>

theorem prev_loc_after_recording:
  fixes addr :: "'a::len word"
  assumes "afl_area_ptr st = Some a"
    and "v = (drop_bit 4 addr XOR push_bit 8 addr) AND word_of_int (MAP_SIZE - 1)"
    and "unat v < unat (afl_inst_rms st)"
  shows "prev_loc (afl_maybe_log MAP_SIZE addr (st\<lparr>prev_loc := p\<rparr>)) = drop_bit 1 v"
  using assms by (simp add: log_recorded [where a = a and s = v])

theorem prev_loc_after_recording_witness:
  "afl_area_ptr ((afl_init 65536 :: 64 word afl_state)\<lparr>afl_area_ptr := Some (\<lambda>_. 0)\<rparr>) = Some (\<lambda>_. 0) \<and>
   (0xd05d :: 64 word) = (drop_bit 4 0x4005d0 XOR push_bit 8 0x4005d0) AND word_of_int (65536 - 1) \<and>
   prev_loc (afl_maybe_log 65536 (0x4005d0 :: 64 word)
     ((afl_init 65536)\<lparr>afl_area_ptr := Some (\<lambda>_. 0), prev_loc := 77\<rparr>)) = drop_bit 1 0xd05d"
proof -
  let ?st = "(afl_init 65536 :: 64 word afl_state)\<lparr>afl_area_ptr := Some (\<lambda>_. 0)\<rparr>"
  have h1: "afl_area_ptr ?st = Some (\<lambda>_. 0)"
    by (simp add: afl_init_def)
  have h2: "(0xd05d :: 64 word) = (drop_bit 4 0x4005d0 XOR push_bit 8 0x4005d0) AND word_of_int (65536 - 1)"
    by simp
  have h3: "unat (0xd05d :: 64 word) < unat (afl_inst_rms ?st)"
    by (simp add: afl_init_def)
  from prev_loc_after_recording [OF h1 h2 h3, of 77] h1 h2 show ?thesis by blast
qed

section \<open>C10: every write is inside the map\<close>

text \<open>
  Claim C10. Let \<open>MAP_SIZE\<close> be a power of two and let the logger have been called any
  number of times since \<open>prev_loc\<close> was 0. Then \<open>prev_loc\<close> is 0 or half of a masked
  scrambled value; the scrambled value, \<open>prev_loc\<close> and their XOR are all below
  \<open>MAP_SIZE\<close>; and the next call either leaves the state alone or increments exactly one
  byte, at an offset below \<open>MAP_SIZE\<close>.
\<close>

theorem index_in_bounds:
  fixes st0 :: "'a::len word afl_state" and addr :: "'a word"
  assumes "MAP_SIZE = 2 ^ k"
    and "prev_loc st0 = 0"
    and "st = fold (afl_maybe_log MAP_SIZE) addrs st0"
    and "loc = (drop_bit 4 addr XOR push_bit 8 addr) AND word_of_int (MAP_SIZE - 1)"
  shows "(prev_loc st = 0 \<or>
           (\<exists>x. prev_loc st =
              drop_bit 1 ((drop_bit 4 x XOR push_bit 8 x) AND word_of_int (MAP_SIZE - 1)))) \<and>
         int (unat loc) < MAP_SIZE \<and>
         int (unat (prev_loc st)) < MAP_SIZE \<and>
         int (unat (loc XOR prev_loc st)) < MAP_SIZE \<and>
         (afl_maybe_log MAP_SIZE addr st = st \<or>
          (\<exists>a i. afl_area_ptr st = Some a \<and> i = unat (loc XOR prev_loc st) \<and> int i < MAP_SIZE \<and>
             afl_maybe_log MAP_SIZE addr st =
               st\<lparr>afl_area_ptr := Some (a(i := a i + 1)), prev_loc := drop_bit 1 loc\<rparr>))"
proof -
  have inv: "prev_loc st = 0 \<or>
           (\<exists>x. prev_loc st =
              drop_bit 1 ((drop_bit 4 x XOR push_bit 8 x) AND word_of_int (MAP_SIZE - 1)))"
    unfolding assms(3) using assms(2) by (rule run_prev_loc)
  have m: "(word_of_int (MAP_SIZE - 1) :: 'a word) = mask k"
    unfolding assms(1) by (rule word_of_int_pow2_minus1)
  have loc: "take_bit k loc = loc" unfolding assms(4) m by (rule and_mask_fits)
  have p: "take_bit k (prev_loc st) = prev_loc st"
    using inv
  proof
    assume "prev_loc st = 0" then show ?thesis by simp
  next
    assume "\<exists>x. prev_loc st =
              drop_bit 1 ((drop_bit 4 x XOR push_bit 8 x) AND word_of_int (MAP_SIZE - 1))"
    then obtain x where x: "prev_loc st = drop_bit 1 ((drop_bit 4 x XOR push_bit 8 x) AND mask k)"
      unfolding m by blast
    show ?thesis unfolding x by (rule drop_bit_fits) (rule and_mask_fits)
  qed
  have i: "take_bit k (loc XOR prev_loc st) = loc XOR prev_loc st"
    using loc p by (rule xor_fits)
  have b: "int (unat loc) < MAP_SIZE" "int (unat (prev_loc st)) < MAP_SIZE"
     "int (unat (loc XOR prev_loc st)) < MAP_SIZE"
    unfolding assms(1) using loc p i by (simp_all only: fits_unat)
  have "afl_maybe_log MAP_SIZE addr st = st \<or>
          (\<exists>a i. afl_area_ptr st = Some a \<and> i = unat (loc XOR prev_loc st) \<and> int i < MAP_SIZE \<and>
             afl_maybe_log MAP_SIZE addr st =
               st\<lparr>afl_area_ptr := Some (a(i := a i + 1)), prev_loc := drop_bit 1 loc\<rparr>)"
  proof (cases "afl_area_ptr st")
    case None
    then show ?thesis by (simp add: afl_maybe_log_def)
  next
    case (Some a)
    show ?thesis
    proof (cases "unat loc < unat (afl_inst_rms st)")
      case True
      from log_recorded [OF Some assms(4) True] b(3) Some show ?thesis by blast
    next
      case False
      then have "afl_maybe_log MAP_SIZE addr st = st"
        unfolding assms(4) using Some by (intro log_skipped)
      then show ?thesis by blast
    qed
  qed
  with inv b show ?thesis by blast
qed

theorem index_in_bounds_witness:
  "(65536 :: int) = 2 ^ 16 \<and>
   prev_loc ((afl_init 65536 :: 64 word afl_state)\<lparr>afl_area_ptr := Some (\<lambda>_. 0)\<rparr>) = 0 \<and>
   (0 :: 64 word) = (drop_bit 4 0x400000 XOR push_bit 8 0x400000) AND word_of_int (65536 - 1) \<and>
   int (unat ((0 :: 64 word) XOR
      prev_loc (fold (afl_maybe_log 65536) [0x4005d0]
        ((afl_init 65536 :: 64 word afl_state)\<lparr>afl_area_ptr := Some (\<lambda>_. 0)\<rparr>)))) < 65536"
proof -
  let ?st = "(afl_init 65536 :: 64 word afl_state)\<lparr>afl_area_ptr := Some (\<lambda>_. 0)\<rparr>"
  have h1: "(65536 :: int) = 2 ^ 16" by simp
  have h2: "prev_loc ?st = 0" by (simp add: afl_init_def)
  have h4: "(0 :: 64 word) = (drop_bit 4 0x400000 XOR push_bit 8 0x400000) AND word_of_int (65536 - 1)"
    by simp
  from index_in_bounds [OF h1 h2 refl h4, of "[0x4005d0]"] h1 h2 h4 show ?thesis by blast
qed

end
